theory Spec2Isabelle
  imports Complex_Main "HOL-Library.Multiset" "HOL-Library.Product_Lexorder" "HOL-Library.Char_ord"
    "HOL-Library.List_Lexorder"
begin

section \<open>Treasury analytics of \<open>treasury_app.py\<close>\<close>

text \<open>
  The analytics helpers of \<open>treasury_app.py\<close> work on a pandas data frame holding the
  rows of the \<open>transactions\<close> table. A data frame is modelled as the list of its rows,
  a column as the list of the values of one field. Amounts (SQL \<open>REAL\<close>, Python
  \<open>float\<close>) are modelled as exact real numbers: rounding, infinities and NaN of IEEE
  doubles are not part of this model.
\<close>

subsection \<open>Calendar dates (Python's \<open>datetime.date\<close>)\<close>

text \<open>
  A \<open>date\<close> is the triple (year, month, day); Python compares dates as these triples,
  which is the lexicographic order of the product type. Differences of dates and
  \<open>date - timedelta(days=n)\<close> go through the proleptic Gregorian ordinal, as in
  CPython's \<open>datetime\<close> module (\<open>_ymd2ord\<close>, \<open>_ord2ymd\<close>).
\<close>

type_synonym date = "int \<times> int \<times> int"

definition is_leap :: "int \<Rightarrow> bool" where
  "is_leap y \<longleftrightarrow> y mod 4 = 0 \<and> (y mod 100 \<noteq> 0 \<or> y mod 400 = 0)"

definition days_before_year :: "int \<Rightarrow> int" where
  "days_before_year year = (let y = year - 1 in y * 365 + y div 4 - y div 100 + y div 400)"

definition DAYS_IN_MONTH :: "int list" where
  "DAYS_IN_MONTH = [-1, 31, 28, 31, 30, 31, 30, 31, 31, 30, 31, 30, 31]"

definition DAYS_BEFORE_MONTH :: "int list" where
  "DAYS_BEFORE_MONTH = [-1, 0, 31, 59, 90, 120, 151, 181, 212, 243, 273, 304, 334]"

definition days_before_month :: "int \<Rightarrow> int \<Rightarrow> int" where
  "days_before_month year month =
     DAYS_BEFORE_MONTH ! nat month + (if month > 2 \<and> is_leap year then 1 else 0)"

definition toordinal :: "date \<Rightarrow> int" where
  "toordinal dt = (case dt of (year, month, day) \<Rightarrow>
     days_before_year year + days_before_month year month + day)"

definition fromordinal :: "int \<Rightarrow> date" where
  "fromordinal n0 =
    (let n = n0 - 1;
         n400 = n div 146097; n = n mod 146097;
         n100 = n div 36524; n = n mod 36524;
         n4 = n div 1461; n = n mod 1461;
         n1 = n div 365; n = n mod 365;
         year = n400 * 400 + 1 + n100 * 100 + n4 * 4 + n1
     in if n1 = 4 \<or> n100 = 4 then (year - 1, 12, 31)
        else
          let leapyear = (n1 = 3 \<and> (n4 \<noteq> 24 \<or> n100 = 3));
              month = (n + 50) div 32;
              preceding = DAYS_BEFORE_MONTH ! nat month
                          + (if month > 2 \<and> leapyear then 1 else 0)
          in if preceding > n
             then let month' = month - 1;
                      preceding' = preceding - (DAYS_IN_MONTH ! nat month'
                                   + (if month' = 2 \<and> leapyear then 1 else 0))
                  in (year, month', n - preceding' + 1)
             else (year, month, n - preceding + 1))"

definition minus_days :: "date \<Rightarrow> int \<Rightarrow> date" where
  \<comment> \<open>\<open>d - timedelta(days=k)\<close>\<close>
  "minus_days d k = fromordinal (toordinal d - k)"

definition days_between :: "date \<Rightarrow> date \<Rightarrow> int" where
  \<comment> \<open>\<open>(a - b).days\<close>\<close>
  "days_between a b = toordinal a - toordinal b"


subsection \<open>Rows of the \<open>transactions\<close> table\<close>

text \<open>
  One row of the data frame returned by \<open>fetch_transactions_df\<close>. The columns
  \<open>description\<close>, \<open>category\<close> and \<open>account\<close> are nullable in the schema of
  \<open>init_db\<close>; SQL \<open>NULL\<close> (pandas \<open>None\<close>) is \<open>None\<close>.
\<close>

record txn =
  id :: int
  t_date :: date
  description :: "string option"
  category :: "string option"
  amount :: real
  account :: "string option"

type_synonym dataframe = "txn list"

subsection \<open>\<open>compute_kpis\<close>\<close>

record kpis =
  current_balance :: real
  net_30d :: real
  avg_daily_burn :: real
  runway_days :: "int option"

fun py_min :: "'a::linorder list \<Rightarrow> 'a" where
  \<comment> \<open>Python's \<open>min\<close> of a non-empty sequence (it raises \<open>ValueError\<close> on an empty one;
      \<open>compute_kpis\<close> calls it on non-empty columns only)\<close>
  "py_min (x # xs) = fold min xs x"

fun py_max :: "'a::linorder list \<Rightarrow> 'a" where
  "py_max (x # xs) = fold max xs x"

definition py_int :: "real \<Rightarrow> int" where
  \<comment> \<open>Python's \<open>int(x)\<close> of a float: truncation towards zero\<close>
  "py_int x = (if x \<ge> 0 then \<lfloor>x\<rfloor> else \<lceil>x\<rceil>)"

text \<open>
  \<open>compute_kpis\<close> calls \<open>date.today()\<close> twice: for the cutoff (line 129) and for the
  number of days of the recent period (line 135). The two readings of the clock are
  the parameters \<open>today_cutoff\<close> and \<open>today_days\<close>; they are equal unless midnight
  passes between the two calls.
\<close>

definition compute_kpis :: "date \<Rightarrow> date \<Rightarrow> dataframe \<Rightarrow> real \<Rightarrow> kpis" where
  "compute_kpis today_cutoff today_days df initial_balance =
    (if df = [] then
       \<lparr>current_balance = initial_balance, net_30d = 0, avg_daily_burn = 0,
        runway_days = None\<rparr>
     else
       let cur = initial_balance + sum_list (map amount df);
           cutoff = minus_days today_cutoff 30;
           net30 = sum_list (map amount (filter (\<lambda>r. t_date r \<ge> cutoff) df));
           (period_df, days) =
             (if list_ex (\<lambda>r. t_date r \<ge> cutoff) df then
                let period_df = filter (\<lambda>r. t_date r \<ge> cutoff) df
                in (period_df,
                    days_between today_days (max (py_min (map t_date period_df)) cutoff) + 1)
              else
                let days = days_between (py_max (map t_date df)) (py_min (map t_date df)) + 1
                in (df, max days 30));
           avg = sum_list (map amount period_df) / real_of_int (max days 1);
           runway = (if avg < 0
                     then Some (if cur > 0 then py_int (cur / (- avg)) else 0)
                     else None)
       in \<lparr>current_balance = cur, net_30d = net30, avg_daily_burn = avg,
           runway_days = runway\<rparr>)"

subsection \<open>Grouping and cumulative sums (pandas)\<close>

definition groupby :: "('r \<Rightarrow> 'k::linorder) \<Rightarrow> 'r list \<Rightarrow> ('k \<times> 'r list) list" where
  \<comment> \<open>\<open>groupby(key)\<close>: one group per distinct key, the groups in ascending order of
      their keys, the rows of a group in their order in the frame\<close>
  "groupby key rows =
     map (\<lambda>k. (k, filter (\<lambda>r. key r = k) rows)) (sort (remdups (map key rows)))"

definition groupby_sum :: "('k::linorder \<times> real) list \<Rightarrow> ('k \<times> real) list" where
  \<comment> \<open>\<open>groupby(key)[value].sum()\<close> on (key, value) rows\<close>
  "groupby_sum kvs = map (\<lambda>(k, g). (k, sum_list (map snd g))) (groupby fst kvs)"

definition dropna_keys :: "('r \<Rightarrow> 'k option) \<Rightarrow> ('r \<Rightarrow> 'v) \<Rightarrow> 'r list \<Rightarrow> ('k \<times> 'v) list" where
  \<comment> \<open>the (key, value) rows that \<open>groupby\<close> keeps: with its default \<open>dropna=True\<close> it
      leaves out every row whose key is null\<close>
  "dropna_keys key val rows =
     List.map_filter (\<lambda>r. case key r of None \<Rightarrow> None | Some k \<Rightarrow> Some (k, val r)) rows"

fun cumsum_from :: "real \<Rightarrow> real list \<Rightarrow> real list" where
  "cumsum_from acc [] = []"
| "cumsum_from acc (x # xs) = (acc + x) # cumsum_from (acc + x) xs"

definition cumsum :: "real list \<Rightarrow> real list" where
  "cumsum xs = cumsum_from 0 xs"


subsection \<open>\<open>balance_timeseries\<close>\<close>

definition balance_timeseries :: "dataframe \<Rightarrow> real \<Rightarrow> (date \<times> real) list" where
  "balance_timeseries df initial_balance =
    (if df = [] then []
     else
       let tmp = sort_key t_date df;
           cum = map (\<lambda>c. c + initial_balance) (cumsum (map amount tmp));
           tmp = zip (map t_date tmp) cum
       in map (\<lambda>(d, g). (d, last (map snd g))) (groupby fst tmp))"

subsection \<open>\<open>monthly_flows\<close>\<close>

record month_flow =
  month :: date
  inflow :: real
  outflow :: real
  net :: real


subsection \<open>\<open>category_breakdown\<close>\<close>

definition category_breakdown :: "dataframe \<Rightarrow> (string \<times> real) list" where
  "category_breakdown df =
    (if df = [] then []
     else
       let out = groupby_sum (dropna_keys category amount df)
       in sort_key snd out)"

subsection \<open>CSV import (the loop of \<open>main\<close>, lines 221 to 222)\<close>












subsection \<open>Example data\<close>

text \<open>The three transactions of the specification's example scenario.\<close>

definition example_df :: dataframe where
  "example_df =
    [\<lparr>id = 1, t_date = (2024, 1, 5), description = Some ''Rent'',
      category = Some ''Housing'', amount = - 500, account = Some ''Cash''\<rparr>,
     \<lparr>id = 2, t_date = (2024, 1, 10), description = Some ''Salary'',
      category = Some ''Income'', amount = 2000, account = Some ''Bank''\<rparr>,
     \<lparr>id = 3, t_date = (2024, 1, 20), description = Some ''Groceries'',
      category = Some ''Food'', amount = - 200, account = Some ''Cash''\<rparr>]"

text \<open>A snapshot with outflows only and a record without category.\<close>

definition burning_df :: dataframe where
  "burning_df =
    [\<lparr>id = 1, t_date = (2024, 1, 5), description = Some ''Rent'',
      category = Some ''Housing'', amount = - 500, account = Some ''Cash''\<rparr>,
     \<lparr>id = 2, t_date = (2024, 1, 20), description = None,
      category = None, amount = - 200, account = None\<rparr>]"



section \<open>Properties\<close>

subsection \<open>Auxiliary facts\<close>

lemma calendar_examples:
  "minus_days (2024, 1, 25) 30 = (2023, 12, 26)"
  "minus_days (2024, 3, 25) 30 = (2024, 2, 24)"
  "days_between (2024, 1, 25) (2024, 1, 5) = 20"
  "days_between (2024, 1, 20) (2024, 1, 5) = 15"
  by (simp_all add: minus_days_def days_between_def toordinal_def fromordinal_def
      days_before_year_def days_before_month_def DAYS_BEFORE_MONTH_def DAYS_IN_MONTH_def
      is_leap_def Let_def)







lemma sort_remdups_set: "sort (remdups xs) = sorted_list_of_set (set xs)"
  by (simp add: sorted_list_of_set_sort_remdups)

lemma groupby_sum_eq:
  "groupby_sum kvs =
     map (\<lambda>k. (k, sum_list (map snd (filter (\<lambda>kv. fst kv = k) kvs))))
       (sorted_list_of_set (fst ` set kvs))"
  by (simp add: groupby_sum_def groupby_def comp_def sort_remdups_set)














lemma dropna_keys_Nil: "dropna_keys key val [] = []"
  by (simp add: dropna_keys_def map_filter_simps)

lemma dropna_keys_Cons:
  "dropna_keys key val (r # rows) =
     (case key r of None \<Rightarrow> dropna_keys key val rows
      | Some k \<Rightarrow> (k, val r) # dropna_keys key val rows)"
  by (simp add: dropna_keys_def map_filter_simps split: option.split)

lemma dropna_keys_group:
  "map snd (filter (\<lambda>kv. fst kv = k) (dropna_keys key val rows))
     = map val (filter (\<lambda>r. key r = Some k) rows)"
  by (induction rows) (auto simp add: dropna_keys_Nil dropna_keys_Cons split: option.split)


lemma dropna_keys_keys:
  "fst ` set (dropna_keys key val rows) = {k. Some k \<in> key ` set rows}"
  by (induction rows) (auto simp add: dropna_keys_Nil dropna_keys_Cons split: option.split)

lemma distinct_map_sort_key: "distinct (map g (sort_key f xs)) \<longleftrightarrow> distinct (map g xs)"
  by (rule mset_eq_imp_distinct_iff) (simp only: mset_map mset_sort)

lemma category_breakdown_eq:
  "category_breakdown df =
     sort_key snd
       (map (\<lambda>c. (c, sum_list (map amount (filter (\<lambda>r. category r = Some c) df))))
          (sorted_list_of_set {c. Some c \<in> category ` set df}))"
proof (cases "df = []")
  case True
  then show ?thesis by (simp add: category_breakdown_def)
next
  case False
  then show ?thesis
    by (simp add: category_breakdown_def groupby_sum_eq dropna_keys_group dropna_keys_keys)
qed

lemma finite_categories: "finite {c. Some c \<in> category ` set (df :: dataframe)}"
proof -
  have "{c. Some c \<in> category ` set df} = fst ` set (dropna_keys category amount df)"
    by (simp add: dropna_keys_keys)
  then show ?thesis by simp
qed


lemma length_cumsum_from: "length (cumsum_from acc xs) = length xs"
  by (induction xs arbitrary: acc) simp_all

lemma filter_zip_key_empty:
  "d \<notin> set ks \<Longrightarrow> filter (\<lambda>p. fst p = d) (zip ks vs) = []"
  by (auto simp add: filter_empty_conv dest: set_zip_leftD)

lemma filter_zip_key_nonempty:
  assumes "d \<in> set ks" and "length vs = length ks"
  shows "filter (\<lambda>p. fst p = d) (zip ks vs) \<noteq> []"
proof -
  from assms(2) have "map fst (zip ks vs) = ks"
    by simp
  with assms(1) have "d \<in> fst ` set (zip ks vs)"
    by (metis set_map)
  then show ?thesis
    by (auto simp add: filter_empty_conv)
qed

lemma last_group_cumsum:
  fixes xs :: "('k::linorder \<times> real) list"
  assumes "sorted (map fst xs)" and "d \<in> fst ` set xs"
  shows "last (map snd (filter (\<lambda>p. fst p = d)
            (zip (map fst xs) (map (\<lambda>c. c + ib) (cumsum_from acc (map snd xs))))))
         = acc + sum_list (map snd (filter (\<lambda>p. fst p \<le> d) xs)) + ib"
  using assms
proof (induction xs arbitrary: acc)
  case Nil
  then show ?case by simp
next
  case (Cons x xs)
  obtain k a where x: "x = (k, a)"
    by (cases x)
  let ?rest = "zip (map fst xs) (map (\<lambda>c. c + ib) (cumsum_from (acc + a) (map snd xs)))"
  from Cons.prems(1) have sorted_xs: "sorted (map fst xs)" and k_le: "\<forall>p \<in> set xs. k \<le> fst p"
    by (auto simp add: x)
  show ?case
  proof (cases "d \<in> fst ` set xs")
    case True
    then have ne: "filter (\<lambda>p. fst p = d) ?rest \<noteq> []"
      by (intro filter_zip_key_nonempty) (simp_all add: length_cumsum_from)
    from True k_le have "k \<le> d"
      by auto
    moreover have "last (map snd (filter (\<lambda>p. fst p = d) ?rest))
          = (acc + a) + sum_list (map snd (filter (\<lambda>p. fst p \<le> d) xs)) + ib"
      using sorted_xs True by (rule Cons.IH)
    ultimately show ?thesis
      using ne by (simp add: x)
  next
    case False
    with Cons.prems(2) have d: "d = k"
      by (simp add: x)
    from False have "filter (\<lambda>p. fst p = d) ?rest = []"
      by (intro filter_zip_key_empty) simp
    moreover have "filter (\<lambda>p. fst p \<le> d) xs = []"
    proof -
      have "\<not> fst p \<le> d" if "p \<in> set xs" for p
      proof
        assume "fst p \<le> d"
        with k_le that d have "fst p = d" by auto
        with that False show False by auto
      qed
      then show ?thesis by (simp add: filter_empty_conv)
    qed
    ultimately show ?thesis
      by (simp add: x d)
  qed
qed

lemma sum_list_filter_perm:
  fixes g :: "'a \<Rightarrow> real"
  assumes "mset xs = mset ys"
  shows "sum_list (map g (filter P xs)) = sum_list (map g (filter P ys))"
proof -
  from assms have "mset (map g (filter P xs)) = mset (map g (filter P ys))"
    by (simp only: mset_map mset_filter)
  then show ?thesis
    by (metis sum_mset_sum_list)
qed

lemma filter_pairs_le:
  "map snd (filter (\<lambda>p. fst p \<le> d) (map (\<lambda>r. (f r, g r)) xs)) = map g (filter (\<lambda>r. f r \<le> d) xs)"
  by (induction xs) auto

text \<open>
  The time series does not depend on how \<open>sort_values\<close> orders the records of one
  date: every frame \<open>tmp\<close> that holds the records of \<open>df\<close> in ascending order of their
  dates gives the same groups.
\<close>

lemma timeseries_of_sorted:
  assumes perm: "mset tmp = mset df" and sorted_tmp: "sorted (map t_date tmp)"
  shows "map (\<lambda>(d, g). (d, last (map snd g)))
           (groupby fst (zip (map t_date tmp)
                          (map (\<lambda>c. c + ib) (cumsum (map amount tmp)))))
         = map (\<lambda>d. (d, ib + sum_list (map amount (filter (\<lambda>r. t_date r \<le> d) df))))
             (sorted_list_of_set (t_date ` set df))"
proof -
  let ?xs = "map (\<lambda>r. (t_date r, amount r)) tmp"
  let ?rows = "zip (map t_date tmp) (map (\<lambda>c. c + ib) (cumsum (map amount tmp)))"
  from perm have set_tmp: "set tmp = set df"
    by (rule mset_eq_setD)
  have rows: "?rows = zip (map fst ?xs) (map (\<lambda>c. c + ib) (cumsum_from 0 (map snd ?xs)))"
    by (simp add: cumsum_def comp_def)
  have "map fst ?rows = map t_date tmp"
    by (simp add: cumsum_def length_cumsum_from)
  then have "set (map fst ?rows) = set (map t_date tmp)"
    by (rule arg_cong)
  then have keys: "fst ` set ?rows = t_date ` set df"
    by (simp add: set_tmp del: map_fst_zip)
  from sorted_tmp have sorted_xs: "sorted (map fst ?xs)"
    by (simp add: comp_def)
  have group: "last (map snd (filter (\<lambda>p. fst p = d) ?rows))
                = ib + sum_list (map amount (filter (\<lambda>r. t_date r \<le> d) df))"
    if "d \<in> t_date ` set df" for d
  proof -
    from that have "d \<in> fst ` set ?xs"
      by (force simp add: image_image set_tmp)
    with sorted_xs
    have "last (map snd (filter (\<lambda>p. fst p = d) ?rows))
            = 0 + sum_list (map snd (filter (\<lambda>p. fst p \<le> d) ?xs)) + ib"
      unfolding rows by (rule last_group_cumsum)
    then show ?thesis
      by (simp add: filter_pairs_le sum_list_filter_perm [OF perm])
  qed
  have "map (\<lambda>(d, g). (d, last (map snd g))) (groupby fst ?rows)
          = map (\<lambda>d. (d, last (map snd (filter (\<lambda>p. fst p = d) ?rows))))
              (sorted_list_of_set (t_date ` set df))"
    by (simp add: groupby_def sort_remdups_set keys del: set_zip_leftD)
  also have "\<dots> = map (\<lambda>d. (d, ib + sum_list (map amount (filter (\<lambda>r. t_date r \<le> d) df))))
                      (sorted_list_of_set (t_date ` set df))"
    by (rule map_cong) (simp_all add: group)
  finally show ?thesis .
qed

lemma balance_timeseries_eq:
  "balance_timeseries df ib =
     map (\<lambda>d. (d, ib + sum_list (map amount (filter (\<lambda>r. t_date r \<le> d) df))))
       (sorted_list_of_set (t_date ` set df))"
proof (cases "df = []")
  case True
  then show ?thesis by (simp add: balance_timeseries_def)
next
  case False
  have "mset (sort_key t_date df) = mset df" and "sorted (map t_date (sort_key t_date df))"
    by simp_all
  then show ?thesis
    using False by (simp add: balance_timeseries_def Let_def timeseries_of_sorted)
qed

lemma image_const_on: "S \<noteq> {} \<Longrightarrow> (\<And>e. e \<in> S \<Longrightarrow> f e = c) \<Longrightarrow> f ` S = {c}"
  by auto

lemma ball_pairD: "\<forall>(d, b) \<in> S. P d b \<Longrightarrow> e \<in> S \<Longrightarrow> P (fst e) (snd e)"
  by (cases e) auto

lemma set_graph_of_keys:
  assumes "\<And>e. e \<in> S \<Longrightarrow> snd e = f (fst e)"
  shows "S = (\<lambda>d. (d, f d)) ` (fst ` S)"
proof (intro set_eqI iffI)
  fix e assume e: "e \<in> S"
  then have "e = (fst e, f (fst e))"
    using assms [OF e] by (simp add: prod_eq_iff)
  moreover from e have "fst e \<in> fst ` S"
    by (rule imageI)
  ultimately show "e \<in> (\<lambda>d. (d, f d)) ` (fst ` S)"
    by (rule image_eqI)
next
  fix e assume "e \<in> (\<lambda>d. (d, f d)) ` (fst ` S)"
  then obtain e' where e': "e' \<in> S" and "e = (fst e', f (fst e'))"
    by blast
  with assms [OF e'] have "e = e'"
    by (simp add: prod_eq_iff)
  with e' show "e \<in> S"
    by simp
qed



subsection \<open>KPIs\<close>

text \<open>
  Claim C1. For every snapshot, the empty one included, and every initial balance,
  the current balance returned by \<open>compute_kpis\<close> is the initial balance plus the sum
  of the amounts of all records, whatever the clock says.
\<close>

theorem compute_kpis_current_balance:
  "current_balance (compute_kpis t1 t2 df ib) = ib + sum_list (map amount df)"
  by (simp add: compute_kpis_def Let_def split: prod.split)

theorem compute_kpis_current_balance_witness:
  "current_balance (compute_kpis (2024, 1, 25) (2024, 1, 25) example_df 1000) = 2300
   \<and> current_balance (compute_kpis (2024, 1, 25) (2024, 1, 25) [] 1000) = 1000"
  using compute_kpis_current_balance [of "(2024, 1, 25)" "(2024, 1, 25)" example_df 1000]
    compute_kpis_current_balance [of "(2024, 1, 25)" "(2024, 1, 25)" "[]" 1000]
  by (simp add: example_df_def)








subsection \<open>Balance time series\<close>

text \<open>
  Claim C5. \<open>balance_timeseries\<close> returns one (date, balance) pair per distinct date
  of the snapshot, in strictly ascending order of the dates; the balance of a date is
  the initial balance plus the sum of the amounts of all records dated on or before
  it, which is the last cumulative value of that date. The empty snapshot gives the
  empty sequence.
\<close>

theorem balance_timeseries_cumulative:
  "sorted_wrt (<) (map fst (balance_timeseries df ib))
   \<and> set (map fst (balance_timeseries df ib)) = t_date ` set df
   \<and> (\<forall>(d, b) \<in> set (balance_timeseries df ib).
         b = ib + sum_list (map amount (filter (\<lambda>r. t_date r \<le> d) df)))
   \<and> balance_timeseries [] ib = []"
proof -
  have "map fst (balance_timeseries df ib) = sorted_list_of_set (t_date ` set df)"
    by (simp add: balance_timeseries_eq comp_def)
  moreover have "\<forall>(d, b) \<in> set (balance_timeseries df ib).
         b = ib + sum_list (map amount (filter (\<lambda>r. t_date r \<le> d) df))"
    by (subst balance_timeseries_eq) auto
  moreover have "balance_timeseries [] ib = []"
    by (simp add: balance_timeseries_def)
  ultimately show ?thesis
    by (simp del: set_map)
qed

theorem balance_timeseries_cumulative_witness:
  "set (balance_timeseries example_df 1000)
     = {((2024, 1, 5), 500), ((2024, 1, 10), 2500), ((2024, 1, 20), 2300)}"
proof -
  let ?ts = "balance_timeseries example_df 1000"
  let ?bal = "\<lambda>d. 1000 + sum_list (map amount (filter (\<lambda>r. t_date r \<le> d) example_df))"
  note inst = balance_timeseries_cumulative [of example_df 1000]
  from inst have "set (map fst ?ts) = t_date ` set example_df"
    by blast
  then have k: "fst ` set ?ts = {(2024, 1, 5), (2024, 1, 10), (2024, 1, 20)}"
    by (simp add: example_df_def)
  from inst have all: "\<forall>(d, b) \<in> set ?ts. b = ?bal d"
    by blast
  have b: "snd e = ?bal (fst e)" if "e \<in> set ?ts" for e
    using all that by (rule ball_pairD)
  have v: "?bal (2024, 1, 5) = 500" "?bal (2024, 1, 10) = 2500" "?bal (2024, 1, 20) = 2300"
    by (simp_all add: example_df_def)
  have "set ?ts = (\<lambda>d. (d, ?bal d)) ` (fst ` set ?ts)"
    using b by (rule set_graph_of_keys)
  also have "\<dots> = {((2024, 1, 5), 500), ((2024, 1, 10), 2500), ((2024, 1, 20), 2300)}"
    unfolding k by (simp only: image_insert image_empty v)
  finally show ?thesis .
qed

subsection \<open>Monthly flows\<close>



subsection \<open>Category breakdown\<close>

text \<open>
  Claim C7, as stated: one entry per distinct category, the records without category
  forming a group of their own. It fails on \<open>burning_df\<close>, whose two records have the
  categories \<open>Housing\<close> and null: the breakdown has the single entry of \<open>Housing\<close>, and
  the record without category is in no group.
\<close>

theorem category_breakdown_null_counterexample:
  "category_breakdown burning_df = [(''Housing'', - 500)]
   \<and> card (category ` set burning_df) = 2
   \<and> length (category_breakdown burning_df) \<noteq> card (category ` set burning_df)"
proof -
  have a: "category_breakdown burning_df = [(''Housing'', - 500)]"
    by code_simp
  have b: "card (category ` set burning_df) = 2"
    by (simp add: burning_df_def)
  from a b show ?thesis by simp
qed

text \<open>
  Claim C7, amended. \<open>category_breakdown\<close> returns one entry per distinct category
  that is not null (the empty string is a category like any other); the records whose
  category is null are left out, as \<open>groupby\<close> does by default. The amount of an entry
  is the sum of the amounts of the records of its category, the entries are in
  ascending order of their amounts, and the empty snapshot gives the empty sequence.
\<close>

theorem category_breakdown_groups:
  "sorted (map snd (category_breakdown df))
   \<and> distinct (map fst (category_breakdown df))
   \<and> set (map fst (category_breakdown df)) = {c. Some c \<in> category ` set df}
   \<and> (\<forall>(c, a) \<in> set (category_breakdown df).
         a = sum_list (map amount (filter (\<lambda>r. category r = Some c) df)))
   \<and> category_breakdown [] = []"
proof -
  let ?groups = "map (\<lambda>c. (c, sum_list (map amount (filter (\<lambda>r. category r = Some c) df))))
          (sorted_list_of_set {c. Some c \<in> category ` set df})"
  have eq: "category_breakdown df = sort_key snd ?groups"
    by (rule category_breakdown_eq)
  have s: "sorted (map snd (category_breakdown df))"
    unfolding eq by (rule sorted_sort_key)
  have "distinct (map fst (sort_key snd ?groups)) \<longleftrightarrow> distinct (map fst ?groups)"
    by (rule distinct_map_sort_key)
  moreover have "map fst ?groups = sorted_list_of_set {c. Some c \<in> category ` set df}"
    by (simp add: comp_def)
  ultimately have d: "distinct (map fst (category_breakdown df))"
    unfolding eq by simp
  have k: "set (map fst (category_breakdown df)) = {c. Some c \<in> category ` set df}"
    unfolding eq using finite_categories [of df] by (simp add: image_image)
  have v: "\<forall>(c, a) \<in> set (category_breakdown df).
         a = sum_list (map amount (filter (\<lambda>r. category r = Some c) df))"
    unfolding eq by auto
  have e: "category_breakdown [] = []"
    by (simp add: category_breakdown_def)
  from s d k v e show ?thesis by blast
qed

theorem category_breakdown_groups_witness:
  "set (map fst (category_breakdown burning_df)) = {''Housing''}
   \<and> snd ` set (category_breakdown burning_df) = {- 500}"
proof -
  let ?cb = "category_breakdown burning_df"
  note inst = category_breakdown_groups [of burning_df]
  have "set (map fst ?cb) = {c. Some c \<in> category ` set burning_df}"
    by (rule inst [THEN conjunct2, THEN conjunct2, THEN conjunct1])
  also have "\<dots> = {''Housing''}"
    by (simp add: burning_df_def)
  finally have k: "set (map fst ?cb) = {''Housing''}" .
  have ne: "set ?cb \<noteq> {}"
  proof
    assume "set ?cb = {}"
    then have "set (map fst ?cb) = {}"
      by simp
    with k show False
      by (metis insert_not_empty)
  qed
  have all: "\<forall>(c, a) \<in> set ?cb.
      a = sum_list (map amount (filter (\<lambda>r. category r = Some c) burning_df))"
    by (rule inst [THEN conjunct2, THEN conjunct2, THEN conjunct2, THEN conjunct1])
  have "snd e = - 500" if e: "e \<in> set ?cb" for e
  proof -
    from e have "fst e \<in> set (map fst ?cb)"
      by simp
    with k have c: "fst e = ''Housing''"
      by blast
    have "snd e = sum_list (map amount (filter (\<lambda>r. category r = Some (fst e)) burning_df))"
      using all e by (rule ball_pairD)
    with c show ?thesis
      by (simp add: burning_df_def)
  qed
  with ne have "snd ` set ?cb = {- 500}"
    by (rule image_const_on)
  with k show ?thesis
    by blast
qed

subsection \<open>Conservation of the aggregations\<close>




subsection \<open>CSV import\<close>




end
